theory Spec2Isabelle
  imports Main "HOL-Library.Sublist"
begin

section \<open>The subdue command resolver (src/subdue/sub/\_main.py)\<close>

subsection \<open>Strings and paths\<close>

text \<open>
  Python's \<open>s.startswith(p)\<close> and \<open>sep.join(xs)\<close> on strings, and the two-component
  case of the standard library's \<open>os.path.join\<close> on a POSIX host (the program
  dispatches with \<open>os.execvp\<close>): a second component that starts with the separator
  replaces the first, an empty first component or one that ends with the separator is
  extended without a new separator, anything else gets one separator in between.
\<close>

definition startswith :: "string \<Rightarrow> string \<Rightarrow> bool" where
  "startswith s p = (take (length p) s = p)"

fun str_join :: "string \<Rightarrow> string list \<Rightarrow> string" where
  "str_join sep [] = []"
| "str_join sep [x] = x"
| "str_join sep (x # y # ys) = x @ sep @ str_join sep (y # ys)"

definition join :: "string \<Rightarrow> string \<Rightarrow> string" where
  "join a b =
     (if startswith b ''/'' then b
      else if a = [] \<or> last a = CHR ''/'' then a @ b
      else a @ ''/'' @ b)"

subsection \<open>Errors, the filesystem and the probes made on it\<close>

text \<open>
  The exceptions the resolver can raise: \<open>token[0]\<close> on an empty token is an
  IndexError, reading the local \<open>is_dir\<close> before any assignment is an
  UnboundLocalError.
\<close>

datatype error = IndexError | UnboundLocalError

text \<open>
  The filesystem is seen through \<open>os.path.isdir\<close> and \<open>os.access(_, os.X_OK)\<close>
  only. Both are read-only queries; the model records each call, in order.
\<close>

record FilesystemProbe =
  isdir :: "string \<Rightarrow> bool"
  access_X_OK :: "string \<Rightarrow> bool"

datatype probe = IsDir string | AccessX string

subsection \<open>The layout and the Command object\<close>

text \<open>
  \<open>SubPaths\<close> is computed from the interpreter's call stack; the resolver and
  \<open>main\<close> read its fields \<open>name\<close> and \<open>commands\<close> only, so the object is taken as
  given.
\<close>

record SubPaths =
  name :: string
  bin :: string
  root :: string
  commands :: string
  lib :: string

text \<open>
  \<open>Command.__init__(tokens, path, is_sh, is_container, arguments)\<close>; every field
  but \<open>tokens\<close> is \<open>None\<close> in the sentinel built by \<open>create_not_found\<close>.
\<close>

record Command =
  tokens :: "string list"
  path :: "string option"
  is_sh :: "bool option"
  is_container :: "bool option"
  arguments :: "string list option"

definition create_not_found :: "string list \<Rightarrow> Command" where
  "create_not_found toks =
     \<lparr>tokens = toks, path = None, is_sh = None, is_container = None, arguments = None\<rparr>"



definition found :: "Command \<Rightarrow> bool" where
  "found c = (path c \<noteq> None)"

definition command :: "Command \<Rightarrow> string" where
  "command c = str_join '' '' (tokens c)"

text \<open>
  \<open>run_with(runner)\<close> calls the runner on \<open>[self.path] + self.arguments\<close>; the model
  gives that argument vector. It is used on found Commands only, where both fields are
  set.
\<close>

definition run_with :: "Command \<Rightarrow> string list" where
  "run_with c = the (path c) # the (arguments c)"

text \<open>
  \<open>main\<close> tests \<open>not command.found\<close> first and \<open>command.is_container\<close> (by
  truthiness) second, and runs what is left. These are the three outcomes the
  specification calls NotFound, Container and Leaf.
\<close>

definition truthy :: "bool option \<Rightarrow> bool" where
  "truthy b = (b = Some True)"

definition is_NotFound :: "Command \<Rightarrow> bool" where
  "is_NotFound c = (\<not> found c)"

definition is_Container :: "Command \<Rightarrow> bool" where
  "is_Container c = (found c \<and> truthy (is_container c))"

definition is_Leaf :: "Command \<Rightarrow> bool" where
  "is_Leaf c = (found c \<and> \<not> truthy (is_container c))"

subsection \<open>find\_command\_path\<close>

definition mkcmd :: "string \<Rightarrow> bool \<Rightarrow> string" where
  "mkcmd cmd sh_flag = (if sh_flag then ''sh-'' @ cmd else cmd)"

text \<open>
  Line 179, reached by every \<open>break\<close> and by the end of the loop:
  \<open>return Command(command, running_path, is_sh, is_dir, argv[shift+1:])\<close>.
  The local \<open>is_dir\<close> is assigned inside the loop body only, after the flag test;
  \<open>None\<close> below stands for "not yet assigned", and reading it raises.
\<close>

definition line_179 ::
  "string list \<Rightarrow> string list \<Rightarrow> string \<Rightarrow> bool \<Rightarrow> bool option \<Rightarrow> nat \<Rightarrow> error + Command" where
  "line_179 argv cmd running_path sh is_dir shift =
     (case is_dir of
        None \<Rightarrow> Inl UnboundLocalError
      | Some d \<Rightarrow>
          Inr \<lparr>tokens = cmd, path = Some running_path, is_sh = Some sh,
               is_container = Some d, arguments = Some (drop (shift + 1) argv)\<rparr>)"

definition probed :: "probe list \<Rightarrow> 'a \<times> probe list \<Rightarrow> 'a \<times> probe list" where
  "probed ps r = (fst r, ps @ snd r)"

text \<open>
  The loop \<open>for (shift, token) in enumerate(argv)\<close>, over what is left of the
  enumeration, with the locals \<open>running_path\<close>, \<open>shift\<close>, \<open>command\<close>, \<open>is_sh\<close> and
  \<open>is_dir\<close> as arguments. The result is the value returned or the exception
  raised, and the probes made from here on.
\<close>

fun scan ::
  "FilesystemProbe \<Rightarrow> string list \<Rightarrow> (nat \<times> string) list \<Rightarrow> string \<Rightarrow> nat \<Rightarrow> string list \<Rightarrow>
     bool \<Rightarrow> bool option \<Rightarrow> (error + Command) \<times> probe list" where
  "scan fs argv [] running_path shift cmd sh is_dir =
     (line_179 argv cmd running_path sh is_dir shift, [])"
| "scan fs argv ((i, token) # rest) running_path shift cmd sh is_dir =
     (if token = [] then (Inl IndexError, [])
      else if token ! 0 = CHR ''-'' then
        (line_179 argv cmd running_path sh is_dir i, [])
      else
        let cmd' = cmd @ [token];
            possible_path = join running_path token
        in
          if isdir fs possible_path then
            probed [IsDir possible_path]
              (scan fs argv rest possible_path i cmd' sh (Some True))
          else if access_X_OK fs possible_path then
            (line_179 argv cmd' possible_path sh (Some False) i,
             [IsDir possible_path, AccessX possible_path])
          else
            let possible_path_sh = join running_path (mkcmd token True)
            in
              if access_X_OK fs possible_path_sh then
                (line_179 argv cmd' possible_path_sh True (Some False) i,
                 [IsDir possible_path, AccessX possible_path, AccessX possible_path_sh])
              else
                (Inr (create_not_found cmd'),
                 [IsDir possible_path, AccessX possible_path, AccessX possible_path_sh]))"

text \<open>
  Line 138: \<open>running_path = paths.commands if start_dir is None else start_dir\<close>.
\<close>

definition line_138 :: "SubPaths \<Rightarrow> string option \<Rightarrow> string" where
  "line_138 paths start_dir = (case start_dir of None \<Rightarrow> commands paths | Some d \<Rightarrow> d)"

definition find_command_path ::
  "FilesystemProbe \<Rightarrow> string list \<Rightarrow> SubPaths \<Rightarrow> string option \<Rightarrow> (error + Command) \<times> probe list" where
  "find_command_path fs argv paths start_dir =
     scan fs argv (enumerate 0 argv) (line_138 paths start_dir) 0 [] False None"

subsection \<open>Descents and the probes of a run\<close>

text \<open>
  The loop goes on to the next token in one way only: the \<open>continue\<close> of line 160,
  taken when the token is not empty, does not begin with \<open>-\<close> and
  \<open>os.path.isdir(os.path.join(running_path, token))\<close> holds, with \<open>running_path\<close> set to
  that path (line 158). \<open>walk d ts\<close> lists the values \<open>running_path\<close> takes when the
  loop starts in \<open>d\<close> and goes on through all of \<open>ts\<close>, and \<open>descends fs d ts\<close> says
  that it does. The scan is then in \<open>foldl join d ts\<close>.
\<close>

fun walk :: "string \<Rightarrow> string list \<Rightarrow> string list" where
  "walk d [] = []"
| "walk d (t # ts) = join d t # walk (join d t) ts"


text \<open>
  The loop body makes one \<open>os.path.isdir\<close> call for every token it appends to
  \<open>command\<close>, before any other probe. \<open>dir_probes\<close> reads the paths of these calls off
  a probe trace, in order.
\<close>

fun dir_probes :: "probe list \<Rightarrow> string list" where
  "dir_probes [] = []"
| "dir_probes (IsDir p # ps) = p # dir_probes ps"
| "dir_probes (AccessX p # ps) = dir_probes ps"

subsection \<open>main\<close>

text \<open>
  What one call of \<open>main\<close> does to the outside: the text written to standard output
  and to standard error, the argument vector handed to the runner if any, and how it
  ends: by returning a value, by \<open>sys.exit\<close>, or with an exception of the resolver.
  The runner is a parameter of \<open>main\<close> (\<open>os.execvp\<close> unless the caller supplies one);
  what it does with the argument vector is outside the model. \<open>argv\<close> and the layout
  are given (\<open>main\<close> reads them from \<open>sys.argv\<close> and the call stack when the caller
  passes none).
\<close>

datatype ending = Returns "int option" | Exits int | Raises error

record effects =
  stdout :: string
  stderr :: string
  ran :: "string list option"
  ending :: ending

definition die :: "string \<Rightarrow> effects" where
  "die err = \<lparr>stdout = [], stderr = err @ [CHR 0x0A], ran = None, ending = Exits 1\<rparr>"

definition command_help :: "string \<times> bool" where
  "command_help = (''subdue help'' @ [CHR 0x0A], True)"

definition main :: "FilesystemProbe \<Rightarrow> SubPaths \<Rightarrow> string list \<Rightarrow> effects" where
  "main fs paths argv =
     (if length argv < 1 \<or> argv ! 0 \<in> {''-h'', ''--help''} then
        (let (out, ret) = command_help
         in \<lparr>stdout = out, stderr = [], ran = None,
             ending = Returns (Some (if ret then 0 else 1))\<rparr>)
      else
        case fst (find_command_path fs argv paths None) of
          Inl e \<Rightarrow> \<lparr>stdout = [], stderr = [], ran = None, ending = Raises e\<rparr>
        | Inr c \<Rightarrow>
            if \<not> found c then
              die (name paths @ '': no such command `'' @ command c @ [CHR 0x27])
            else if truthy (is_container c) then
              die (name paths @ '': can't run a container `'' @ command c @ [CHR 0x27])
            else
              \<lparr>stdout = [], stderr = [],
               ran = Some (run_with c), ending = Returns None\<rparr>)"

subsection \<open>A concrete command tree\<close>

text \<open>
  A small tree under \<open>/cmds\<close>, used to run the resolver on concrete inputs:
  the directories \<open>deploy\<close>, \<open>a\<close>, \<open>a/b\<close>, \<open>group\<close>, \<open>g\<close> and \<open>sh-tools\<close>
  (searchable, so \<open>os.access(_, os.X_OK)\<close> holds of them), and the executable files
  \<open>deploy/staging\<close>, \<open>foo\<close>, \<open>sh-foo\<close>, \<open>sh-bar\<close>, \<open>group/sh-foo\<close>, \<open>g/foo\<close> and
  \<open>g/sh-foo\<close>.
\<close>

definition tree_dirs :: "string list" where
  "tree_dirs =
     [''/cmds'', ''/cmds/deploy'', ''/cmds/a'', ''/cmds/a/b'', ''/cmds/group'', ''/cmds/g'',
      ''/cmds/sh-tools'']"

definition tree_files :: "string list" where
  "tree_files =
     [''/cmds/deploy/staging'', ''/cmds/foo'', ''/cmds/sh-foo'', ''/cmds/sh-bar'',
      ''/cmds/group/sh-foo'', ''/cmds/g/foo'', ''/cmds/g/sh-foo'']"

definition tree_fs :: FilesystemProbe where
  "tree_fs = \<lparr>isdir = (\<lambda>p. p \<in> set tree_dirs),
              access_X_OK = (\<lambda>p. p \<in> set (tree_dirs @ tree_files))\<rparr>"

definition tree_paths :: SubPaths where
  "tree_paths = \<lparr>name = ''sub'', bin = ''/bin'', root = ''/'', commands = ''/cmds'', lib = ''/lib''\<rparr>"

section \<open>Properties of the resolver\<close>

subsection \<open>One iteration of the loop, branch by branch\<close>



lemma line_179_Inr:
  "line_179 argv cmd rp sh d k = Inr c \<longleftrightarrow>
     (\<exists>b. d = Some b \<and> c = \<lparr>tokens = cmd, path = Some rp, is_sh = Some sh,
               is_container = Some b, arguments = Some (drop (k + 1) argv)\<rparr>)"
  by (auto simp: line_179_def split: option.splits)

lemma scan_empty_token:
  "scan fs argv ((i, []) # rest) rp k cmd sh d = (Inl IndexError, [])"
  by simp

lemma scan_flag:
  "t \<noteq> [] \<Longrightarrow> t ! 0 = CHR ''-'' \<Longrightarrow>
   scan fs argv ((i, t) # rest) rp k cmd sh d = (line_179 argv cmd rp sh d i, [])"
  by simp

lemma scan_dir:
  "t \<noteq> [] \<Longrightarrow> t ! 0 \<noteq> CHR ''-'' \<Longrightarrow> isdir fs (join rp t) \<Longrightarrow>
   scan fs argv ((i, t) # rest) rp k cmd sh d =
     probed [IsDir (join rp t)] (scan fs argv rest (join rp t) i (cmd @ [t]) sh (Some True))"
  by (simp add: Let_def)

lemma scan_direct:
  "t \<noteq> [] \<Longrightarrow> t ! 0 \<noteq> CHR ''-'' \<Longrightarrow> \<not> isdir fs (join rp t) \<Longrightarrow>
   access_X_OK fs (join rp t) \<Longrightarrow>
   scan fs argv ((i, t) # rest) rp k cmd sh d =
     (line_179 argv (cmd @ [t]) (join rp t) sh (Some False) i,
      [IsDir (join rp t), AccessX (join rp t)])"
  by (simp add: Let_def)

lemma scan_sh:
  "t \<noteq> [] \<Longrightarrow> t ! 0 \<noteq> CHR ''-'' \<Longrightarrow> \<not> isdir fs (join rp t) \<Longrightarrow>
   \<not> access_X_OK fs (join rp t) \<Longrightarrow> access_X_OK fs (join rp (''sh-'' @ t)) \<Longrightarrow>
   scan fs argv ((i, t) # rest) rp k cmd sh d =
     (line_179 argv (cmd @ [t]) (join rp (''sh-'' @ t)) True (Some False) i,
      [IsDir (join rp t), AccessX (join rp t), AccessX (join rp (''sh-'' @ t))])"
  by (simp add: Let_def mkcmd_def)

lemma scan_miss:
  "t \<noteq> [] \<Longrightarrow> t ! 0 \<noteq> CHR ''-'' \<Longrightarrow> \<not> isdir fs (join rp t) \<Longrightarrow>
   \<not> access_X_OK fs (join rp t) \<Longrightarrow> \<not> access_X_OK fs (join rp (''sh-'' @ t)) \<Longrightarrow>
   scan fs argv ((i, t) # rest) rp k cmd sh d =
     (Inr (create_not_found (cmd @ [t])),
      [IsDir (join rp t), AccessX (join rp t), AccessX (join rp (''sh-'' @ t))])"
  by (simp add: Let_def mkcmd_def)


lemma scan_cases:
  obtains (empty) "t = []"
  | (flag) "t \<noteq> []" "t ! 0 = CHR ''-''"
  | (dir) "t \<noteq> []" "t ! 0 \<noteq> CHR ''-''" "isdir fs (join rp t)"
  | (direct) "t \<noteq> []" "t ! 0 \<noteq> CHR ''-''" "\<not> isdir fs (join rp t)" "access_X_OK fs (join rp t)"
  | (sh) "t \<noteq> []" "t ! 0 \<noteq> CHR ''-''" "\<not> isdir fs (join rp t)" "\<not> access_X_OK fs (join rp t)"
      "access_X_OK fs (join rp (''sh-'' @ t))"
  | (miss) "t \<noteq> []" "t ! 0 \<noteq> CHR ''-''" "\<not> isdir fs (join rp t)" "\<not> access_X_OK fs (join rp t)"
      "\<not> access_X_OK fs (join rp (''sh-'' @ t))"
  by blast

subsection \<open>The consumed tokens are the examined ones, and the arguments are the rest\<close>

lemma length_walk: "length (walk d ts) = length ts"
  by (induction ts arbitrary: d) simp_all

lemma dir_probes_IsDir: "dir_probes (map IsDir qs @ ps) = qs @ dir_probes ps"
  by (induction qs) simp_all

lemma scan_consumed:
  assumes "scan fs (pre @ ts) (enumerate (length pre) ts) rp k pre sh d = (Inr c, ps)"
    and "d \<noteq> Some False"
  shows "\<exists>m\<le>length ts. tokens c = pre @ take m ts \<and> dir_probes ps = walk rp (take m ts) \<and>
           (is_Leaf c \<longrightarrow> arguments c = Some (drop m ts))"
  using assms
proof (induction ts arbitrary: pre rp k d ps)
  case Nil
  then show ?case
    by (auto simp: line_179_Inr is_Leaf_def found_def truthy_def)
next
  case (Cons t ts)
  from Cons.prems(1)
  have run: "scan fs (pre @ t # ts) ((length pre, t) # enumerate (Suc (length pre)) ts) rp k pre sh d
               = (Inr c, ps)"
    by simp
  show ?case
  proof (cases rule: scan_cases [where t = t and fs = fs and rp = rp])
    case empty
    with run show ?thesis by simp
  next
    case flag
    with run Cons.prems(2)
    have "tokens c = pre \<and> ps = [] \<and> \<not> is_Leaf c"
      by (auto simp: scan_flag line_179_Inr is_Leaf_def found_def truthy_def simp del: scan.simps)
    then show ?thesis by (intro exI [of _ 0]) simp
  next
    case dir
    obtain ps' where ps: "ps = IsDir (join rp t) # ps'"
      and rest: "scan fs ((pre @ [t]) @ ts) (enumerate (length (pre @ [t])) ts)
                (join rp t) (length pre) (pre @ [t]) sh (Some True) = (Inr c, ps')"
      using run dir
      by (cases "scan fs (pre @ t # ts) (enumerate (Suc (length pre)) ts)
                (join rp t) (length pre) (pre @ [t]) sh (Some True)")
         (simp add: scan_dir probed_def del: scan.simps)
    from Cons.IH [OF rest] obtain m where m: "m \<le> length ts"
      "tokens c = (pre @ [t]) @ take m ts" "dir_probes ps' = walk (join rp t) (take m ts)"
      "is_Leaf c \<longrightarrow> arguments c = Some (drop m ts)"
      by auto
    with ps show ?thesis by (intro exI [of _ "Suc m"]) simp
  next
    case direct
    with run
    have "tokens c = pre @ [t] \<and> ps = [IsDir (join rp t), AccessX (join rp t)] \<and>
          arguments c = Some ts"
      by (auto simp: scan_direct line_179_Inr simp del: scan.simps)
    then show ?thesis by (intro exI [of _ "Suc 0"]) simp
  next
    case sh
    with run
    have "tokens c = pre @ [t] \<and>
          ps = [IsDir (join rp t), AccessX (join rp t), AccessX (join rp (''sh-'' @ t))] \<and>
          arguments c = Some ts"
      by (auto simp: scan_sh line_179_Inr simp del: scan.simps)
    then show ?thesis by (intro exI [of _ "Suc 0"]) simp
  next
    case miss
    with run
    have "tokens c = pre @ [t] \<and>
          ps = [IsDir (join rp t), AccessX (join rp t), AccessX (join rp (''sh-'' @ t))] \<and>
          \<not> is_Leaf c"
      by (auto simp: scan_miss create_not_found_def is_Leaf_def found_def simp del: scan.simps)
    then show ?thesis by (intro exI [of _ "Suc 0"]) simp
  qed
qed

subsection \<open>What every returned Command satisfies\<close>

lemma first_token_of_result:
  assumes "fst (find_command_path fs argv paths sd) = Inr c"
  shows "argv \<noteq> [] \<and> hd argv \<noteq> [] \<and> hd argv ! 0 \<noteq> CHR ''-''"
proof (cases argv)
  case Nil
  with assms show ?thesis
    by (simp add: find_command_path_def line_179_def)
next
  case (Cons t ts)
  with assms show ?thesis
    by (auto simp: find_command_path_def line_179_def split: if_splits)
qed



text \<open>
  Claim C3. Whenever \<open>find_command_path\<close> returns a Command, its \<open>tokens\<close> are a
  prefix of \<open>argv\<close>, and exactly the tokens that were examined: as many as the run made
  \<open>os.path.isdir\<close> calls, each of which is the test of one of these tokens in the
  directory reached through the tokens before it. No later token is included. When
  the Command is a leaf (found, not a container), its \<open>arguments\<close> are \<open>argv\<close> without
  these first tokens, so that \<open>tokens\<close> followed by \<open>arguments\<close> is \<open>argv\<close> exactly.
\<close>

theorem C3_prefix_partition:
  assumes "find_command_path fs argv paths start_dir = (Inr c, ps)"
  shows "prefix (tokens c) argv \<and>
         tokens c = take (length (dir_probes ps)) argv \<and>
         dir_probes ps = walk (line_138 paths start_dir) (tokens c) \<and>
         (is_Leaf c \<longrightarrow>
            arguments c = Some (drop (length (tokens c)) argv) \<and>
            (\<exists>args. arguments c = Some args \<and> tokens c @ args = argv))"
proof -
  from assms
  have "scan fs ([] @ argv) (enumerate (length ([] :: string list)) argv)
          (line_138 paths start_dir) 0 [] False None = (Inr c, ps)"
    by (simp add: find_command_path_def)
  from scan_consumed [OF this] obtain m where m: "m \<le> length argv"
    "tokens c = take m argv" "dir_probes ps = walk (line_138 paths start_dir) (take m argv)"
    "is_Leaf c \<longrightarrow> arguments c = Some (drop m argv)"
    by auto
  from m(1,3) have len: "length (dir_probes ps) = m"
    by (simp add: length_walk)
  from m(1,2) have "length (tokens c) = m" by simp
  with m len show ?thesis
    by (auto simp: take_is_prefix)
qed

lemmas run_defs = find_command_path_def line_138_def tree_fs_def tree_paths_def tree_dirs_def
  tree_files_def join_def startswith_def line_179_def probed_def mkcmd_def create_not_found_def
  enumerate_eq_zip Let_def

theorem C3_prefix_partition_witness:
  "let argv = [''deploy'', ''staging'', ''--force'', ''now''];
       c = \<lparr>tokens = [''deploy'', ''staging''], path = Some ''/cmds/deploy/staging'',
            is_sh = Some False, is_container = Some False,
            arguments = Some [''--force'', ''now'']\<rparr>;
       ps = [IsDir ''/cmds/deploy'', IsDir ''/cmds/deploy/staging'',
             AccessX ''/cmds/deploy/staging'']
   in find_command_path tree_fs argv tree_paths None = (Inr c, ps) \<and>
      prefix (tokens c) argv \<and> tokens c = take (length (dir_probes ps)) argv \<and>
      dir_probes ps = walk ''/cmds'' (tokens c) \<and>
      is_Leaf c \<and> arguments c = Some (drop (length (tokens c)) argv) \<and>
      tokens c @ the (arguments c) = argv"
proof -
  have run: "find_command_path tree_fs [''deploy'', ''staging'', ''--force'', ''now'']
                tree_paths None =
             (Inr \<lparr>tokens = [''deploy'', ''staging''], path = Some ''/cmds/deploy/staging'',
                  is_sh = Some False, is_container = Some False,
                  arguments = Some [''--force'', ''now'']\<rparr>,
              [IsDir ''/cmds/deploy'', IsDir ''/cmds/deploy/staging'',
               AccessX ''/cmds/deploy/staging''])"
    by (simp add: run_defs)
  from C3_prefix_partition [OF run] run show ?thesis
    by (simp add: is_Leaf_def found_def truthy_def line_138_def tree_paths_def)
qed

subsection \<open>Descending through directories\<close>




subsection \<open>The examples of the specification\<close>

text \<open>
  Claim C4. If \<open>deploy\<close> is a directory under the directory the scan starts in, then
  \<open>["deploy", "--help"]\<close> resolves to a container whose path is that directory and
  whose tokens are \<open>["deploy"]\<close>: the scan stops at \<open>--help\<close> without consuming it,
  and the only probe made is the directory test of \<open>deploy\<close>.
\<close>

theorem C4_flag_truncation:
  assumes "line_138 paths start_dir = base"
    and "isdir fs (join base ''deploy'')"
  shows "\<exists>c. find_command_path fs [''deploy'', ''--help''] paths start_dir
                = (Inr c, [IsDir (join base ''deploy'')]) \<and>
             is_Container c \<and> tokens c = [''deploy''] \<and> path c = Some (join base ''deploy'')"
  using assms
  by (simp add: find_command_path_def scan_dir scan_flag probed_def line_179_def
      is_Container_def found_def truthy_def del: scan.simps)

theorem C4_flag_truncation_witness:
  "line_138 tree_paths None = ''/cmds'' \<and> isdir tree_fs (join ''/cmds'' ''deploy'') \<and>
   find_command_path tree_fs [''deploy'', ''--help''] tree_paths None =
     (Inr \<lparr>tokens = [''deploy''], path = Some ''/cmds/deploy'', is_sh = Some False,
           is_container = Some True, arguments = Some []\<rparr>,
      [IsDir ''/cmds/deploy''])"
proof -
  have base: "line_138 tree_paths None = ''/cmds''"
    by (simp add: line_138_def tree_paths_def)
  have dir: "isdir tree_fs (join ''/cmds'' ''deploy'')"
    by (simp add: tree_fs_def tree_dirs_def join_def startswith_def)
  from C4_flag_truncation [OF base dir] base dir show ?thesis
    by (simp add: run_defs)
qed






text \<open>
  Claim C7. If \<open>a\<close> is a directory under the start directory and, inside it, \<open>x\<close> is
  neither a directory nor executable and \<open>sh-x\<close> is not executable, then a command line
  that begins with \<open>a\<close>, \<open>x\<close> resolves to the not-found sentinel with tokens
  \<open>["a", "x"]\<close>, no path and no arguments. Whatever follows \<open>x\<close> on the command line
  (the token \<open>y\<close> of the claim) changes neither the result nor the four probes made.
\<close>

theorem C7_early_failure:
  assumes "line_138 paths start_dir = base"
    and "isdir fs (join base ''a'')"
    and "\<not> isdir fs (join (join base ''a'') ''x'')"
    and "\<not> access_X_OK fs (join (join base ''a'') ''x'')"
    and "\<not> access_X_OK fs (join (join base ''a'') ''sh-x'')"
  shows "find_command_path fs (''a'' # ''x'' # rest) paths start_dir =
           (Inr \<lparr>tokens = [''a'', ''x''], path = None, is_sh = None, is_container = None,
                 arguments = None\<rparr>,
            [IsDir (join base ''a''), IsDir (join (join base ''a'') ''x''),
             AccessX (join (join base ''a'') ''x''), AccessX (join (join base ''a'') ''sh-x'')]) \<and>
         is_NotFound \<lparr>tokens = [''a'', ''x''], path = None, is_sh = None, is_container = None,
                 arguments = None\<rparr>"
proof -
  have "\<not> access_X_OK fs (join (join base ''a'') (''sh-'' @ ''x''))"
    using assms(5) by simp
  with assms(1-4) show ?thesis
    by (simp add: find_command_path_def scan_dir scan_miss probed_def create_not_found_def
        is_NotFound_def found_def del: scan.simps)
qed

theorem C7_early_failure_witness:
  "line_138 tree_paths None = ''/cmds'' \<and> isdir tree_fs (join ''/cmds'' ''a'') \<and>
   \<not> isdir tree_fs (join (join ''/cmds'' ''a'') ''x'') \<and>
   \<not> access_X_OK tree_fs (join (join ''/cmds'' ''a'') ''x'') \<and>
   \<not> access_X_OK tree_fs (join (join ''/cmds'' ''a'') ''sh-x'') \<and>
   find_command_path tree_fs [''a'', ''x'', ''y''] tree_paths None =
     (Inr \<lparr>tokens = [''a'', ''x''], path = None, is_sh = None, is_container = None,
           arguments = None\<rparr>,
      [IsDir ''/cmds/a'', IsDir ''/cmds/a/x'', AccessX ''/cmds/a/x'', AccessX ''/cmds/a/sh-x''])"
proof -
  have base: "line_138 tree_paths None = ''/cmds''"
    by (simp add: line_138_def tree_paths_def)
  have a: "isdir tree_fs (join ''/cmds'' ''a'')"
    by (simp add: tree_fs_def tree_dirs_def join_def startswith_def)
  have nodir: "\<not> isdir tree_fs (join (join ''/cmds'' ''a'') ''x'')"
    by (simp add: tree_fs_def tree_dirs_def join_def startswith_def)
  have nox: "\<not> access_X_OK tree_fs (join (join ''/cmds'' ''a'') ''x'')"
    by (simp add: tree_fs_def tree_dirs_def tree_files_def join_def startswith_def)
  have nosh: "\<not> access_X_OK tree_fs (join (join ''/cmds'' ''a'') ''sh-x'')"
    by (simp add: tree_fs_def tree_dirs_def tree_files_def join_def startswith_def)
  from C7_early_failure [OF base a nodir nox nosh, of "[''y'']"] base a nodir nox nosh
  show ?thesis
    by (simp add: join_def startswith_def)
qed

text \<open>
  Claim C8. If \<open>a\<close> and \<open>a/b\<close> are directories under the start directory, then
  \<open>["a", "b"]\<close> resolves to a container with path \<open>a/b\<close>, every token consumed, by two
  directory tests. (That \<open>a\<close> holds no executable \<open>b\<close> or \<open>sh-b\<close> is not needed: the
  directory test comes first.)
\<close>

theorem C8_full_descent:
  assumes "line_138 paths start_dir = base"
    and "isdir fs (join base ''a'')"
    and "isdir fs (join (join base ''a'') ''b'')"
  shows "\<exists>c. find_command_path fs [''a'', ''b''] paths start_dir
                = (Inr c, [IsDir (join base ''a''), IsDir (join (join base ''a'') ''b'')]) \<and>
             is_Container c \<and> tokens c = [''a'', ''b''] \<and>
             path c = Some (join (join base ''a'') ''b'') \<and> arguments c = Some []"
  using assms
  by (simp add: find_command_path_def scan_dir probed_def line_179_def
      is_Container_def found_def truthy_def del: scan.simps(2))

theorem C8_full_descent_witness:
  "line_138 tree_paths None = ''/cmds'' \<and> isdir tree_fs (join ''/cmds'' ''a'') \<and>
   isdir tree_fs (join (join ''/cmds'' ''a'') ''b'') \<and>
   find_command_path tree_fs [''a'', ''b''] tree_paths None =
     (Inr \<lparr>tokens = [''a'', ''b''], path = Some ''/cmds/a/b'', is_sh = Some False,
           is_container = Some True, arguments = Some []\<rparr>,
      [IsDir ''/cmds/a'', IsDir ''/cmds/a/b''])"
proof -
  have base: "line_138 tree_paths None = ''/cmds''"
    by (simp add: line_138_def tree_paths_def)
  have a: "isdir tree_fs (join ''/cmds'' ''a'')"
    by (simp add: tree_fs_def tree_dirs_def join_def startswith_def)
  have b: "isdir tree_fs (join (join ''/cmds'' ''a'') ''b'')"
    by (simp add: tree_fs_def tree_dirs_def join_def startswith_def)
  from C8_full_descent [OF base a b] base a b show ?thesis
    by (simp add: run_defs)
qed

subsection \<open>Leaves and the files they name\<close>

text \<open>
  A leaf is reached by one of the two \<open>os.access\<close> branches of the loop body, in the
  directory \<open>dir\<close> the scan was in when it read the last consumed token \<open>t\<close>:
  \<open>is_sh\<close> is false exactly when the path is \<open>join(dir, t)\<close>, which then is
  executable and not a directory, and true exactly when the direct test failed and the
  path is \<open>join(dir, "sh-" + t)\<close>, which passed \<open>os.access\<close> and was not tested with
  \<open>os.path.isdir\<close>.
\<close>

lemma scan_leaf_provenance:
  assumes "fst (scan fs argv es rp k cmd False d) = Inr c"
    and "d \<noteq> Some False" and "is_Leaf c"
  shows "\<exists>dir t. tokens c \<noteq> [] \<and> last (tokens c) = t \<and> \<not> isdir fs (join dir t) \<and>
           (is_sh c = Some False \<and> path c = Some (join dir t) \<and> access_X_OK fs (join dir t) \<or>
            is_sh c = Some True \<and> path c = Some (join dir (''sh-'' @ t)) \<and>
              \<not> access_X_OK fs (join dir t) \<and> access_X_OK fs (join dir (''sh-'' @ t)))"
  using assms
proof (induction es arbitrary: rp k cmd d)
  case Nil
  then show ?case by (auto simp: line_179_Inr is_Leaf_def found_def truthy_def)
next
  case (Cons e es)
  obtain i t where e: "e = (i, t)" by (cases e)
  from Cons.prems(1) have run: "fst (scan fs argv ((i, t) # es) rp k cmd False d) = Inr c"
    by (simp only: e)
  show ?case
  proof (cases rule: scan_cases [where t = t and fs = fs and rp = rp])
    case empty
    with run show ?thesis by simp
  next
    case flag
    with run Cons.prems(2,3) show ?thesis
      by (auto simp: scan_flag line_179_Inr is_Leaf_def found_def truthy_def simp del: scan.simps)
  next
    case dir
    with run have "fst (scan fs argv es (join rp t) i (cmd @ [t]) False (Some True)) = Inr c"
      by (simp add: scan_dir probed_def del: scan.simps)
    from Cons.IH [OF this _ Cons.prems(3)] show ?thesis by simp
  next
    case direct
    with run have "tokens c = cmd @ [t] \<and> is_sh c = Some False \<and> path c = Some (join rp t)"
      by (auto simp: scan_direct line_179_Inr simp del: scan.simps)
    with direct show ?thesis by auto
  next
    case sh
    with run have "tokens c = cmd @ [t] \<and> is_sh c = Some True \<and> path c = Some (join rp (''sh-'' @ t))"
      by (auto simp: scan_sh line_179_Inr simp del: scan.simps)
    with sh show ?thesis by auto
  next
    case miss
    with run Cons.prems(3) show ?thesis
      by (auto simp: scan_miss create_not_found_def is_Leaf_def found_def simp del: scan.simps)
  qed
qed

lemma leaf_provenance:
  assumes "fst (find_command_path fs argv paths start_dir) = Inr c" and "is_Leaf c"
  shows "\<exists>dir t. tokens c \<noteq> [] \<and> last (tokens c) = t \<and> \<not> isdir fs (join dir t) \<and>
           (is_sh c = Some False \<and> path c = Some (join dir t) \<and> access_X_OK fs (join dir t) \<or>
            is_sh c = Some True \<and> path c = Some (join dir (''sh-'' @ t)) \<and>
              \<not> access_X_OK fs (join dir t) \<and> access_X_OK fs (join dir (''sh-'' @ t)))"
  using assms unfolding find_command_path_def
  by (intro scan_leaf_provenance [where d = None]) simp_all

lemma leaf_path_passes_access:
  assumes "fst (find_command_path fs argv paths start_dir) = Inr c" and "is_Leaf c"
  shows "\<exists>p. path c = Some p \<and> access_X_OK fs p \<and> (is_sh c = Some False \<longrightarrow> \<not> isdir fs p)"
  using leaf_provenance [OF assms] by auto

text \<open>
  Claim C1. The claim says that the path of every leaf is an executable file and not a
  directory, and that \<open>is_sh\<close> tells the \<open>sh-\<close> lookup from the direct one. The
  second half is \<open>leaf_provenance\<close>. The first half fails on the \<open>sh-\<close> branch: in the
  tree above \<open>sh-tools\<close> is a searchable directory and there is no \<open>tools\<close>, and the
  token \<open>tools\<close> resolves to a leaf (found, not a container, \<open>is_sh\<close> set) whose path
  is that directory.
\<close>

theorem C1_sh_leaf_is_directory:
  "find_command_path tree_fs [''tools''] tree_paths None =
     (Inr \<lparr>tokens = [''tools''], path = Some ''/cmds/sh-tools'', is_sh = Some True,
           is_container = Some False, arguments = Some []\<rparr>,
      [IsDir ''/cmds/tools'', AccessX ''/cmds/tools'', AccessX ''/cmds/sh-tools'']) \<and>
   is_Leaf \<lparr>tokens = [''tools''], path = Some ''/cmds/sh-tools'', is_sh = Some True,
           is_container = Some False, arguments = Some []\<rparr> \<and>
   isdir tree_fs ''/cmds/sh-tools''"
  by (simp add: run_defs is_Leaf_def found_def truthy_def)

subsection \<open>When the resolver returns\<close>

text \<open>
  The resolver returns a Command whenever no token is the empty string and the first
  token does not begin with \<open>-\<close>.
\<close>

lemma scan_returns:
  assumes "\<forall>e \<in> set es. snd e \<noteq> []"
    and "d \<noteq> None \<or> (es \<noteq> [] \<and> snd (hd es) ! 0 \<noteq> CHR ''-'')"
  shows "\<exists>c. fst (scan fs argv es rp k cmd sh d) = Inr c"
  using assms
proof (induction es arbitrary: rp k cmd d)
  case Nil
  then show ?case by (auto simp: line_179_def)
next
  case (Cons e es)
  obtain i t where e: "e = (i, t)" by (cases e)
  with Cons.prems(1) have t: "t \<noteq> []" by simp
  show ?case
  proof (cases rule: scan_cases [where t = t and fs = fs and rp = rp])
    case empty
    with t show ?thesis by simp
  next
    case flag
    with Cons.prems(2) e show ?thesis
      by (auto simp: scan_flag line_179_def simp del: scan.simps)
  next
    case dir
    have "\<exists>c. fst (scan fs argv es (join rp t) i (cmd @ [t]) sh (Some True)) = Inr c"
      using Cons.prems(1) by (intro Cons.IH) simp_all
    with dir e show ?thesis
      by (simp add: scan_dir probed_def del: scan.simps)
  next
    case direct
    with e show ?thesis
      by (simp add: scan_direct line_179_def del: scan.simps)
  next
    case sh
    with e show ?thesis
      by (simp add: scan_sh line_179_def del: scan.simps)
  next
    case miss
    with e show ?thesis
      by (simp add: scan_miss del: scan.simps)
  qed
qed

lemma resolver_returns:
  assumes "argv \<noteq> []" and "\<forall>t \<in> set argv. t \<noteq> []" and "hd argv ! 0 \<noteq> CHR ''-''"
  shows "\<exists>c. fst (find_command_path fs argv paths start_dir) = Inr c"
proof -
  from assms(2) have "\<forall>e \<in> set (enumerate 0 argv). snd e \<noteq> []"
    by (auto simp: in_set_enumerate_eq)
  moreover from assms(1,3) have "enumerate 0 argv \<noteq> [] \<and> snd (hd (enumerate 0 argv)) ! 0 \<noteq> CHR ''-''"
    by (cases argv) simp_all
  ultimately show ?thesis
    unfolding find_command_path_def by (intro scan_returns) simp_all
qed

text \<open>
  Claim C2. The claim says that the resolver returns a Command for every non-empty token
  sequence and never raises. It raises UnboundLocalError when the first token begins
  with \<open>-\<close> (the \<open>break\<close> comes before the first assignment of \<open>is_dir\<close>, which line
  179 reads), and IndexError when the token it reads is the empty string
  (\<open>token[0]\<close>). \<open>main\<close> filters \<open>-h\<close> and \<open>--help\<close> only, so \<open>["-v"]\<close> reaches the
  resolver and the exception leaves \<open>main\<close>.
\<close>

theorem C2_resolver_raises:
  "fst (find_command_path fs [''-v''] paths start_dir) = Inl UnboundLocalError \<and>
   fst (find_command_path fs ([] # rest) paths start_dir) = Inl IndexError \<and>
   ending (main fs paths [''-v'']) = Raises UnboundLocalError"
  by (simp add: find_command_path_def line_179_def main_def)

subsection \<open>The messages of main\<close>

lemma not_help_flag:
  assumes "argv \<noteq> []" and "hd argv \<noteq> []" and "hd argv ! 0 \<noteq> CHR ''-''"
  shows "\<not> (length argv < 1 \<or> argv ! 0 \<in> {''-h'', ''--help''})"
  using assms by (cases argv) auto

text \<open>
  Claim C9, as amended. When the resolver returns the not-found sentinel, \<open>main\<close> writes
  the name, \<open>: no such command\<close>, a space, and the consumed tokens joined by single
  spaces between a backquote (character 0x60) and a straight single quote (0x27),
  then a newline, to standard error, writes nothing else, runs nothing and exits with
  code 1. When the resolver returns a container, the same holds with
  \<open>: can't run a container\<close>.
\<close>

theorem C9_error_messages:
  assumes "fst (find_command_path fs argv paths None) = Inr c"
  shows "(is_NotFound c \<longrightarrow>
            main fs paths argv =
              \<lparr>stdout = [],
               stderr = name paths @ '': no such command '' @ [CHR 0x60] @
                        str_join '' '' (tokens c) @ [CHR 0x27] @ [CHR 0x0A],
               ran = None, ending = Exits 1\<rparr>) \<and>
         (is_Container c \<longrightarrow>
            main fs paths argv =
              \<lparr>stdout = [],
               stderr = name paths @ '': can'' @ [CHR 0x27] @ ''t run a container '' @ [CHR 0x60] @
                        str_join '' '' (tokens c) @ [CHR 0x27] @ [CHR 0x0A],
               ran = None, ending = Exits 1\<rparr>)"
proof -
  from first_token_of_result [OF assms]
  have "\<not> (length argv < 1 \<or> argv ! 0 \<in> {''-h'', ''--help''})"
    by (intro not_help_flag) simp_all
  with assms show ?thesis
    by (simp add: main_def die_def command_def is_NotFound_def is_Container_def)
qed

theorem C9_error_messages_witness:
  "fst (find_command_path tree_fs [''a'', ''x''] tree_paths None) = Inr (create_not_found [''a'', ''x'']) \<and>
   is_NotFound (create_not_found [''a'', ''x'']) \<and>
   main tree_fs tree_paths [''a'', ''x''] =
     \<lparr>stdout = [], stderr = ''sub: no such command '' @ [CHR 0x60] @ ''a x'' @ [CHR 0x27, CHR 0x0A],
      ran = None, ending = Exits 1\<rparr> \<and>
   fst (find_command_path tree_fs [''a'', ''b''] tree_paths None) =
     Inr \<lparr>tokens = [''a'', ''b''], path = Some ''/cmds/a/b'', is_sh = Some False,
          is_container = Some True, arguments = Some []\<rparr> \<and>
   is_Container \<lparr>tokens = [''a'', ''b''], path = Some ''/cmds/a/b'', is_sh = Some False,
          is_container = Some True, arguments = Some []\<rparr> \<and>
   main tree_fs tree_paths [''a'', ''b''] =
     \<lparr>stdout = [],
      stderr = ''sub: can'' @ [CHR 0x27] @ ''t run a container '' @ [CHR 0x60] @ ''a b'' @
               [CHR 0x27, CHR 0x0A],
      ran = None, ending = Exits 1\<rparr>"
proof -
  have nf: "fst (find_command_path tree_fs [''a'', ''x''] tree_paths None) =
              Inr (create_not_found [''a'', ''x''])"
    by (simp add: run_defs)
  have co: "fst (find_command_path tree_fs [''a'', ''b''] tree_paths None) =
     Inr \<lparr>tokens = [''a'', ''b''], path = Some ''/cmds/a/b'', is_sh = Some False,
          is_container = Some True, arguments = Some []\<rparr>"
    by (simp add: run_defs)
  from C9_error_messages [OF nf] C9_error_messages [OF co] nf co show ?thesis
    by (simp add: is_NotFound_def is_Container_def found_def truthy_def create_not_found_def
        tree_paths_def)
qed

text \<open>
  Claim C9 as stated has a straight single quote on both sides of the tokens. In the
  tree above, \<open>["a", "x"]\<close> is not found, and what \<open>main\<close> writes to standard error
  does not begin with the message of the claim: its character 21, where the claim
  has the opening straight quote, is a backquote.
\<close>

theorem C9_straight_quotes_counterexample:
  "fst (find_command_path tree_fs [''a'', ''x''] tree_paths None) = Inr (create_not_found [''a'', ''x'']) \<and>
   is_NotFound (create_not_found [''a'', ''x'']) \<and>
   \<not> prefix (''sub: no such command '' @ [CHR 0x27] @ ''a x'' @ [CHR 0x27])
            (stderr (main tree_fs tree_paths [''a'', ''x''])) \<and>
   stderr (main tree_fs tree_paths [''a'', ''x'']) ! 21 = CHR 0x60"
  by (simp add: main_def die_def command_def found_def truthy_def is_NotFound_def tree_paths_def
      run_defs)

subsection \<open>is\_eval and found\_with\_sh\<close>




end
